theory Spec2Isabelle
  imports Complex_Main
begin

section \<open>Strings\<close>

text \<open>
  A Python \<^verbatim>\<open>str\<close> is a sequence of Unicode code points, so a string is a list of
  natural numbers (the code points); \<open>len\<close> is \<open>length\<close>.  A sender cell of the table
  is either a string or missing (\<^verbatim>\<open>None\<close>/\<^verbatim>\<open>NaN\<close>), hence \<open>pystr option\<close>.
\<close>

type_synonym pystr = "nat list"

definition str :: "string \<Rightarrow> pystr" where
  "str cs = map of_char cs"

text \<open>
  The characters that \<^verbatim>\<open>\s\<close> matches in a \<^verbatim>\<open>str\<close> pattern and that \<^verbatim>\<open>str.strip()\<close>
  removes: U+0009..U+000D, U+001C..U+0020, U+0085, U+00A0, U+1680, U+2000..U+200A,
  U+2028, U+2029, U+202F, U+205F, U+3000.
\<close>

definition isspace :: "nat \<Rightarrow> bool" where
  "isspace c \<longleftrightarrow>
     (9 \<le> c \<and> c \<le> 13) \<or> (28 \<le> c \<and> c \<le> 32) \<or> c = 133 \<or> c = 160 \<or> c = 5760 \<or>
     (8192 \<le> c \<and> c \<le> 8202) \<or> c = 8232 \<or> c = 8233 \<or> c = 8239 \<or> c = 8287 \<or>
     c = 12288"

text \<open>\<^verbatim>\<open>s.strip()\<close> and \<^verbatim>\<open>s.strip(chars)\<close>.\<close>

definition strip_by :: "(nat \<Rightarrow> bool) \<Rightarrow> pystr \<Rightarrow> pystr" where
  "strip_by p s = rev (dropWhile p (rev (dropWhile p s)))"

definition strip :: "pystr \<Rightarrow> pystr" where
  "strip s = strip_by isspace s"

definition strip_chars :: "pystr \<Rightarrow> pystr \<Rightarrow> pystr" where
  "strip_chars chars s = strip_by (\<lambda>c. c \<in> set chars) s"

text \<open>
  \<^verbatim>\<open>re.sub(r'\s+', ' ', s)\<close>: every maximal run of whitespace becomes one space
  (code point 32).
\<close>

function sub_ws :: "pystr \<Rightarrow> pystr" where
  "sub_ws [] = []"
| "sub_ws (c # cs) =
     (if isspace c then 32 # sub_ws (dropWhile isspace cs) else c # sub_ws cs)"
  by pat_completeness auto
termination
  by (relation "measure length") (auto simp: length_dropWhile_le less_Suc_eq_le)

text \<open>
  \<^verbatim>\<open>_clean\<close>: a missing value gives the empty string, a string has its whitespace
  runs collapsed and is then stripped.
\<close>

fun clean :: "pystr option \<Rightarrow> pystr" where
  "clean None = []"
| "clean (Some s) = strip (sub_ws s)"

section \<open>Regular expressions\<close>

text \<open>
  The patterns of the module use literals, character classes, concatenation,
  alternation and the greedy quantifiers \<^verbatim>\<open>*\<close>, \<^verbatim>\<open>+\<close>, \<^verbatim>\<open>?\<close>; none has a back
  reference or a look-around.  For such a pattern \<^verbatim>\<open>re\<close> finds a match exactly when
  the text is in the pattern's language, so a pattern is a regular expression over
  character predicates and matching is language membership, decided by derivatives.
\<close>

datatype rx = Zero | One | Sym "nat \<Rightarrow> bool" | Alt rx rx | Seq rx rx | Star rx

fun nullable :: "rx \<Rightarrow> bool" where
  "nullable Zero = False"
| "nullable One = True"
| "nullable (Sym p) = False"
| "nullable (Alt r s) = (nullable r \<or> nullable s)"
| "nullable (Seq r s) = (nullable r \<and> nullable s)"
| "nullable (Star r) = True"

text \<open>Constructors that drop the empty language and the empty word where they can.\<close>

definition alt :: "rx \<Rightarrow> rx \<Rightarrow> rx" where
  "alt r s = (case r of Zero \<Rightarrow> s | _ \<Rightarrow> (case s of Zero \<Rightarrow> r | _ \<Rightarrow> Alt r s))"

definition seq :: "rx \<Rightarrow> rx \<Rightarrow> rx" where
  "seq r s = (case r of Zero \<Rightarrow> Zero | One \<Rightarrow> s | _ \<Rightarrow> (case s of Zero \<Rightarrow> Zero | _ \<Rightarrow> Seq r s))"

fun deriv :: "nat \<Rightarrow> rx \<Rightarrow> rx" where
  "deriv c Zero = Zero"
| "deriv c One = Zero"
| "deriv c (Sym p) = (if p c then One else Zero)"
| "deriv c (Alt r s) = alt (deriv c r) (deriv c s)"
| "deriv c (Seq r s) =
     (if nullable r then alt (seq (deriv c r) s) (deriv c s) else seq (deriv c r) s)"
| "deriv c (Star r) = seq (deriv c r) (Star r)"

fun fullmatch :: "rx \<Rightarrow> pystr \<Rightarrow> bool" where
  "fullmatch r [] = nullable r"
| "fullmatch r (c # cs) = fullmatch (deriv c r) cs"

definition Chr :: "nat \<Rightarrow> rx" where
  "Chr a = Sym (\<lambda>c. c = a)"

definition Plus :: "rx \<Rightarrow> rx" where
  "Plus r = Seq r (Star r)"

definition Opt :: "rx \<Rightarrow> rx" where
  "Opt r = Alt One r"

text \<open>
  \<^verbatim>\<open>$\<close> at the end of a pattern (no \<^verbatim>\<open>MULTILINE\<close>) holds at the end of the text and
  just before a newline that ends the text.
\<close>

definition Dollar :: rx where
  "Dollar = Opt (Chr 10)"

text \<open>
  \<^verbatim>\<open>P.search(s)\<close> for a pattern without anchors: some slice of the text matches.
\<close>

definition search :: "rx \<Rightarrow> pystr \<Rightarrow> bool" where
  "search r s = fullmatch (Seq (Star (Sym (\<lambda>c. True))) (Seq r (Star (Sym (\<lambda>c. True))))) s"

text \<open>
  A literal under \<^verbatim>\<open>re.I\<close>.  The letter \<open>a\<close> is a lower-case ASCII letter; it matches
  itself, its capital, and the characters the pattern compiler adds for it: U+0130 and
  U+0131 for \<open>i\<close>, U+017F for \<open>s\<close>, U+212A for \<open>k\<close>.  A literal that is not a letter
  matches only itself.
\<close>

definition ichr :: "nat \<Rightarrow> nat \<Rightarrow> bool" where
  "ichr a c \<longleftrightarrow>
     c = a \<or> (97 \<le> a \<and> a \<le> 122 \<and> c + 32 = a) \<or>
     (a = 105 \<and> (c = 304 \<or> c = 305)) \<or> (a = 115 \<and> c = 383) \<or> (a = 107 \<and> c = 8490)"

fun iword :: "pystr \<Rightarrow> rx" where
  "iword [] = One"
| "iword [a] = Sym (ichr a)"
| "iword (a # as) = Seq (Sym (ichr a)) (iword as)"

subsection \<open>The patterns of \<^verbatim>\<open>build_sender_features\<close>\<close>

definition ws :: rx where
  "ws = Sym isspace"

definition not_at_space :: "nat \<Rightarrow> bool" where
  "not_at_space c \<longleftrightarrow> c \<noteq> 64 \<and> \<not> isspace c"

definition none_of :: "pystr \<Rightarrow> nat \<Rightarrow> bool" where
  "none_of cs c \<longleftrightarrow> c \<notin> set cs"

text \<open>\<^verbatim>\<open>\s*$\<close>, the end of four of the patterns.\<close>

definition TRAIL :: rx where
  "TRAIL = Seq (Star ws) Dollar"

text \<open>\<^verbatim>\<open>[^@\s]+@[^@\s]+\.[^@\s]+\<close>, the common prefix of the first three patterns.\<close>

definition EMAIL :: rx where
  "EMAIL = Seq (Plus (Sym not_at_space)) (Seq (Chr 64) (Seq (Plus (Sym not_at_space))
             (Seq (Chr 46) (Plus (Sym not_at_space)))))"

definition RE_EMAIL_ONLY :: rx where
  "RE_EMAIL_ONLY = Seq EMAIL Dollar"

definition RE_PAREN_NAME :: rx where
  "RE_PAREN_NAME = Seq EMAIL (Seq (Star ws) (Seq (Chr 40) (Seq (Plus (Sym (none_of [41])))
                     (Seq (Chr 41) TRAIL))))"

definition RE_PAREN_EMPTY :: rx where
  "RE_PAREN_EMPTY = Seq EMAIL (Seq (Star ws) (Seq (Chr 40) (Seq (Star ws)
                      (Seq (Chr 41) TRAIL))))"

text \<open>The group \<^verbatim>\<open>addr\<close> of \<^verbatim>\<open>RE_DISPLAY_ANGLE\<close>; \<^verbatim>\<open>\s*$\<close> follows it.\<close>

definition ADDR :: rx where
  "ADDR = Seq (Chr 60) (Seq (Star ws) (Seq (Plus (Sym (none_of [62]))) (Seq (Chr 64)
            (Seq (Plus (Sym (none_of [62]))) (Seq (Star ws) (Chr 62))))))"

definition RE_QUOTED_NAME_ANG :: rx where
  "RE_QUOTED_NAME_ANG =
     Seq (Chr 34) (Seq (Star ws) (Seq (Plus (Sym (none_of [34]))) (Seq (Star ws)
       (Seq (Chr 34) (Seq (Star ws) (Seq (Chr 60) (Seq (Plus (Sym (none_of [62])))
         (Seq (Chr 62) Dollar))))))))"

definition RE_LAST_COMMA_FIRST :: rx where
  "RE_LAST_COMMA_FIRST =
     Seq (Opt (Chr 34)) (Seq (Plus (Sym (none_of [34, 44, 60, 62]))) (Seq (Chr 44)
       (Seq (Plus (Sym (none_of [34, 44, 60, 62]))) (Seq (Chr 34) (Seq (Star ws)
         (Seq (Chr 60) (Seq (Plus (Sym (none_of [62]))) (Seq (Chr 62) Dollar))))))))"

text \<open>
  \<^verbatim>\<open>NAME_CHARS\<close>: A-Z, a-z, U+00C0..U+00D6, U+00D8..U+00F6, U+00F8..U+00FF, the
  apostrophe, the backtick, U+2019, the hyphen, the full stop and the space.
\<close>

definition NAME_CHARS :: "nat \<Rightarrow> bool" where
  "NAME_CHARS c \<longleftrightarrow>
     (65 \<le> c \<and> c \<le> 90) \<or> (97 \<le> c \<and> c \<le> 122) \<or> (192 \<le> c \<and> c \<le> 214) \<or>
     (216 \<le> c \<and> c \<le> 246) \<or> (248 \<le> c \<and> c \<le> 255) \<or> c = 39 \<or> c = 96 \<or> c = 8217 \<or>
     c = 45 \<or> c = 46 \<or> c = 32"

definition RE_NAME_ANG :: rx where
  "RE_NAME_ANG =
     Seq (Plus (Sym NAME_CHARS)) (Seq (Plus ws) (Seq (Plus (Sym NAME_CHARS)) (Seq (Star ws)
       (Seq (Chr 60) (Seq (Plus (Sym (none_of [62]))) (Seq (Chr 62) Dollar))))))"

definition username_char :: "nat \<Rightarrow> bool" where
  "username_char c \<longleftrightarrow>
     (65 \<le> c \<and> c \<le> 90) \<or> (97 \<le> c \<and> c \<le> 122) \<or> (48 \<le> c \<and> c \<le> 57) \<or>
     c = 46 \<or> c = 95 \<or> c = 45"

definition RE_USERNAME_STYLE :: rx where
  "RE_USERNAME_STYLE = Seq (Plus (Sym username_char)) Dollar"

definition RE_BRACKETS :: rx where
  "RE_BRACKETS = Seq (Chr 91) (Seq (Star (Sym (none_of [93]))) (Chr 93))"

definition RE_FAKE_DOMAIN :: rx where
  "RE_FAKE_DOMAIN =
     Alt (iword (str ''no.hostname.specified''))
       (Alt (iword (str ''localhost'')) (iword (str ''example.com'')))"

section \<open>The address helper\<close>

text \<open>
  \<^verbatim>\<open>RE_DISPLAY_ANGLE.search(s)\<close>.  The pattern is anchored at the start; its lazy
  \<^verbatim>\<open>(?P<disp>.*?)\<close> first tries the empty prefix and takes one more character (any
  but a newline) each time the rest of the text is not \<^verbatim>\<open>addr\<close> followed by
  \<^verbatim>\<open>\s*$\<close>.  The result is the pair of the groups \<^verbatim>\<open>disp\<close> and \<^verbatim>\<open>addr\<close>.  The group
  \<^verbatim>\<open>addr\<close> ends at the first \<^verbatim>\<open>>\<close> of the rest, the only one its pattern can
  consume.
\<close>

definition addr_group :: "pystr \<Rightarrow> pystr" where
  "addr_group rest = takeWhile (\<lambda>c. c \<noteq> 62) rest @ [62]"

fun lazy_disp :: "pystr \<Rightarrow> pystr \<Rightarrow> (pystr \<times> pystr) option" where
  "lazy_disp disp [] =
     (if fullmatch (Seq ADDR TRAIL) [] then Some (disp, addr_group []) else None)"
| "lazy_disp disp (c # cs) =
     (if fullmatch (Seq ADDR TRAIL) (c # cs) then Some (disp, addr_group (c # cs))
      else if c = 10 then None
      else lazy_disp (disp @ [c]) cs)"

definition RE_DISPLAY_ANGLE_search :: "pystr \<Rightarrow> (pystr \<times> pystr) option" where
  "RE_DISPLAY_ANGLE_search s = lazy_disp [] s"

text \<open>
  Group 1 of \<^verbatim>\<open>re.search(r'<\s*([^>]+)\s*>', t)\<close>.  The match starts at the first
  \<^verbatim>\<open><\<close> that is followed, after at least one character, by a \<^verbatim>\<open>>\<close>; the greedy
  \<^verbatim>\<open>\s*\<close> takes the leading whitespace, unless nothing would be left for the group,
  and the group takes everything up to the \<^verbatim>\<open>>\<close>.
\<close>

definition inner_at :: "pystr \<Rightarrow> pystr option" where
  "inner_at cs =
     (let x = takeWhile (\<lambda>c. c \<noteq> 62) cs in
      if x = [] \<or> length x = length cs then None
      else if dropWhile isspace x = [] then Some [last x]
      else Some (dropWhile isspace x))"

fun inner_search :: "pystr \<Rightarrow> pystr option" where
  "inner_search [] = None"
| "inner_search (c # cs) =
     (if c = 60 then (case inner_at cs of Some g \<Rightarrow> Some g | None \<Rightarrow> inner_search cs)
      else inner_search cs)"

text \<open>\<^verbatim>\<open>_split_display_angle\<close>.\<close>

definition split_display_angle :: "pystr \<Rightarrow> pystr \<times> pystr" where
  "split_display_angle s =
     (if s = [] then ([], [])
      else case RE_DISPLAY_ANGLE_search s of
        None \<Rightarrow> ([], [])
      | Some (disp_g, addr) \<Rightarrow>
          (strip_chars [34, 32] (strip disp_g),
           (case inner_search addr of Some g \<Rightarrow> strip g | None \<Rightarrow> strip addr)))"

section \<open>The sender classifier\<close>

text \<open>
  A dictionary that keeps insertion order is an association list; assigning to a key
  that is present keeps its place.
\<close>

definition fromkeys :: "'k list \<Rightarrow> 'v \<Rightarrow> ('k \<times> 'v) list" where
  "fromkeys ks v = map (\<lambda>k. (k, v)) ks"

definition dict_set :: "'k \<Rightarrow> 'v \<Rightarrow> ('k \<times> 'v) list \<Rightarrow> ('k \<times> 'v) list" where
  "dict_set k v d =
     (if k \<in> set (map fst d) then map (\<lambda>(k', v'). if k' = k then (k', v) else (k', v')) d
      else d @ [(k, v)])"

definition FLAG_NAMES :: "string list" where
  "FLAG_NAMES =
     [''is_mail_only'', ''is_mail_paren_name'', ''is_name_angle'', ''is_quoted_name'',
      ''is_last_comma_first'', ''is_username_angle'', ''is_display_angle'', ''is_multi_mails'',
      ''is_mail_empty_parens'', ''is_double_at'', ''is_mail_with_brackets'', ''is_fake_domain'',
      ''is_other'', ''is_display_empty_angle'', ''is_quoted_text_no_email'']"

text \<open>One branch of the classifier: set one flag, append one category.\<close>

definition branch :: "string \<Rightarrow> string \<Rightarrow> string \<times> (string \<times> nat) list" where
  "branch flag cat = (cat, dict_set flag 1 (fromkeys FLAG_NAMES 0))"

text \<open>The sub-classification of a sender with an angle address (lines 106 to 121).\<close>

definition classify_angle :: "pystr \<Rightarrow> pystr \<Rightarrow> string \<times> (string \<times> nat) list" where
  "classify_angle sender_clean disp =
     (let disp_core = strip_chars [34, 32] disp in
      if fullmatch RE_QUOTED_NAME_ANG sender_clean then
        branch ''is_quoted_name'' ''quoted_lastname_firstname_angle''
      else if fullmatch RE_LAST_COMMA_FIRST sender_clean then
        branch ''is_last_comma_first'' ''lastname_comma_firstname_angle''
      else if fullmatch RE_NAME_ANG sender_clean then
        branch ''is_name_angle'' ''lastname_firstname_angle''
      else if fullmatch RE_USERNAME_STYLE disp_core \<and> 32 \<notin> set disp_core then
        branch ''is_username_angle'' ''username_angle''
      else branch ''is_display_angle'' ''display_angle'')"

text \<open>The senders without an angle address (lines 124 to 132).\<close>

definition classify_special :: "pystr \<Rightarrow> string \<times> (string \<times> nat) list" where
  "classify_special sender_clean =
     (let t = strip sender_clean in
      if t = [34, 34, 32, 60, 62] \<or> t = [34, 34, 60, 62] then
        branch ''is_display_empty_angle'' ''display_empty_angle''
      else if take 1 t = [34] \<and> t \<noteq> [] \<and> last t = 34 \<and> 64 \<notin> set sender_clean then
        branch ''is_quoted_text_no_email'' ''quoted_text_only''
      else branch ''is_other'' ''other'')"

text \<open>
  The body of the first loop of \<^verbatim>\<open>build_sender_features\<close> for one sender: the
  category appended to \<^verbatim>\<open>cats\<close> and the dictionary appended to \<^verbatim>\<open>flag_dicts\<close>.
\<close>

definition classify :: "pystr option \<Rightarrow> string \<times> (string \<times> nat) list" where
  "classify sender =
     (let sender_clean = clean sender in
      if sender_clean = [] then branch ''is_other'' ''other''
      else if 44 \<in> set sender_clean \<and> 2 \<le> count_list sender_clean 64 then
        branch ''is_multi_mails'' ''multi_mails''
      else if fullmatch RE_PAREN_EMPTY sender_clean then
        branch ''is_mail_empty_parens'' ''mail_empty_parentheses''
      else if fullmatch RE_PAREN_NAME sender_clean then
        branch ''is_mail_paren_name'' ''mail_parentheses_lastname''
      else if search RE_BRACKETS sender_clean then
        branch ''is_mail_with_brackets'' ''mail_with_brackets''
      else if fullmatch RE_EMAIL_ONLY sender_clean then
        branch ''is_mail_only'' ''mail_only''
      else if 1 < count_list sender_clean 64 then
        branch ''is_double_at'' ''mail_double_at''
      else if search RE_FAKE_DOMAIN sender_clean then
        branch ''is_fake_domain'' ''mail_fake_domain''
      else case split_display_angle sender_clean of
        (disp, angle) \<Rightarrow>
          if angle \<noteq> [] then classify_angle sender_clean disp
          else classify_special sender_clean)"

section \<open>The email features\<close>

text \<open>
  What the second loop takes from the interpreter and not from the module: the Unicode
  tables behind \<^verbatim>\<open>\d\<close>, \<^verbatim>\<open>str.isdigit\<close> and \<^verbatim>\<open>str.lower\<close> (per character; the one
  context-dependent case, the Greek capital sigma, lowers to a letter outside ASCII
  either way), and the arithmetic of doubles.  The features are defined for any such
  interpreter.
\<close>

record 'f runtime =
  decimal :: "nat \<Rightarrow> bool"
  isdigit :: "nat \<Rightarrow> bool"
  lower :: "nat \<Rightarrow> pystr"
  f_zero :: 'f
  f_div :: "nat \<Rightarrow> nat \<Rightarrow> 'f"
  f_log2 :: "'f \<Rightarrow> 'f"
  f_mul :: "'f \<Rightarrow> 'f \<Rightarrow> 'f"
  f_add :: "'f \<Rightarrow> 'f \<Rightarrow> 'f"
  f_neg :: "'f \<Rightarrow> 'f"

text \<open>
  An interpreter that knows ASCII only and computes in the reals, to run the model on
  ASCII senders.
\<close>

definition ascii_runtime :: "real runtime" where
  "ascii_runtime =
     \<lparr>decimal = (\<lambda>c. 48 \<le> c \<and> c \<le> 57), isdigit = (\<lambda>c. 48 \<le> c \<and> c \<le> 57),
      lower = (\<lambda>c. if 65 \<le> c \<and> c \<le> 90 then [c + 32] else [c]),
      f_zero = 0, f_div = (\<lambda>a b. real a / real b), f_log2 = log 2,
      f_mul = (\<lambda>a b. a * b), f_add = (\<lambda>a b. a + b), f_neg = (\<lambda>a. - a)\<rparr>"

text \<open>\<^verbatim>\<open>Counter(s)\<close>: the characters in the order they first appear, with their counts.\<close>

definition Counter :: "'a list \<Rightarrow> ('a \<times> nat) list" where
  "Counter s =
     foldl (\<lambda>d c. dict_set c (case map_of d c of None \<Rightarrow> 1 | Some n \<Rightarrow> n + 1) d) [] s"

text \<open>\<^verbatim>\<open>_shannon_entropy\<close>; \<^verbatim>\<open>sum\<close> adds the terms from the left, starting from zero.\<close>

definition shannon_entropy :: "'f runtime \<Rightarrow> pystr \<Rightarrow> 'f" where
  "shannon_entropy rt s =
     (if s = [] then f_zero rt
      else let c = Counter s; n = length s in
        f_neg rt (foldl (f_add rt) (f_zero rt)
          (map (\<lambda>cnt. f_mul rt (f_div rt cnt n) (f_log2 rt (f_div rt cnt n))) (map snd c))))"

definition FREE_DOMAINS :: "pystr list" where
  "FREE_DOMAINS = map str
     [''gmail.com'', ''yahoo.com'', ''hotmail.com'', ''outlook.com'', ''aol.com'', ''icloud.com'',
      ''protonmail.com'', ''wanadoo.fr'', ''orange.fr'', ''laposte.net'', ''free.fr'', ''sfr.fr'',
      ''yandex.ru'', ''mail.ru'', ''zoho.com'']"

text \<open>
  Lines 150 to 153: the address of a cleaned sender, the one inside angle brackets or,
  when there is none and the whole sender is a bare address, the sender itself.
\<close>

definition email_of :: "pystr \<Rightarrow> pystr" where
  "email_of s_clean =
     (let email = snd (split_display_angle s_clean) in
      if email = [] \<and> fullmatch RE_EMAIL_ONLY s_clean then s_clean else email)"

text \<open>Lines 154 to 156: \<^verbatim>\<open>email.split("@", 1)\<close> when the address has an \<^verbatim>\<open>@\<close>.\<close>

definition local_domain :: "pystr \<Rightarrow> pystr \<times> pystr" where
  "local_domain email =
     (if 64 \<in> set email
      then (takeWhile (\<lambda>c. c \<noteq> 64) email, tl (dropWhile (\<lambda>c. c \<noteq> 64) email))
      else ([], []))"

datatype 'f cell = IntCell nat | FloatCell 'f

definition int_bool :: "bool \<Rightarrow> 'f cell" where
  "int_bool b = IntCell (if b then 1 else 0)"

text \<open>The dictionary appended to \<^verbatim>\<open>rows\<close> for one sender (lines 149 to 172).\<close>

definition feature_row :: "'f runtime \<Rightarrow> pystr option \<Rightarrow> (string \<times> 'f cell) list" where
  "feature_row rt sender =
     (case local_domain (email_of (clean sender)) of
        (local, domain) \<Rightarrow>
          [(''email_local_len'', IntCell (length local)),
           (''email_domain_len'', IntCell (length domain)),
           (''email_local_entropy'', FloatCell (shannon_entropy rt local)),
           (''email_local_has_digits'', int_bool (list_ex (decimal rt) local)),
           (''email_local_has_underscore'', int_bool (95 \<in> set local)),
           (''email_local_has_dot'', int_bool (46 \<in> set local)),
           (''email_local_has_plus'', int_bool (43 \<in> set local)),
           (''email_domain_is_free'', int_bool (concat (map (lower rt) domain) \<in> set FREE_DOMAINS)),
           (''email_domain_has_digit'', int_bool (list_ex (isdigit rt) domain)),
           (''email_domain_has_dash'', int_bool (45 \<in> set domain))])"

section \<open>The batch entry point\<close>

text \<open>
  The column labels of \<^verbatim>\<open>pd.DataFrame(dicts)\<close>: the keys of the dictionaries in the
  order they first appear; a list without dictionaries gives a frame without columns.
\<close>

definition DataFrame_columns :: "(string \<times> 'v) list list \<Rightarrow> string list" where
  "DataFrame_columns dicts = rev (remdups (rev (concat (map (map fst) dicts))))"

text \<open>
  \<^verbatim>\<open>build_sender_features\<close> reads the column \<^verbatim>\<open>sender\<close> of the table and returns the
  table followed by the column \<^verbatim>\<open>sender_category\<close>, the columns of \<^verbatim>\<open>fmt_df\<close> and the
  columns of \<^verbatim>\<open>enrich_df\<close>.  The model takes the sender column and gives what is added.
\<close>

record 'f added =
  sender_category :: "string list"
  fmt_columns :: "string list"
  fmt_rows :: "nat list list"
  enrich_columns :: "string list"
  enrich_rows :: "'f cell list list"

definition build_sender_features :: "'f runtime \<Rightarrow> pystr option list \<Rightarrow> 'f added" where
  "build_sender_features rt senders =
     (let classified = map classify senders;
          rows = map (feature_row rt) senders in
      \<lparr>sender_category = map fst classified,
       fmt_columns = DataFrame_columns (map snd classified),
       fmt_rows = map (\<lambda>r. map snd (snd r)) classified,
       enrich_columns = DataFrame_columns rows,
       enrich_rows = map (map snd) rows\<rparr>)"

section \<open>Notions used in the statements\<close>

text \<open>A string is tidy when its only whitespace is single, isolated spaces.\<close>

fun tidy :: "pystr \<Rightarrow> bool" where
  "tidy [] = True"
| "tidy [c] = (isspace c \<longrightarrow> c = 32)"
| "tidy (c # d # cs) = ((isspace c \<longrightarrow> c = 32 \<and> \<not> isspace d) \<and> tidy (d # cs))"

text \<open>
  The category each branch of the classifier appends, with the flag it sets.
\<close>

definition CATEGORY_FLAG :: "(string \<times> string) list" where
  "CATEGORY_FLAG =
     [(''other'', ''is_other''),
      (''multi_mails'', ''is_multi_mails''),
      (''mail_empty_parentheses'', ''is_mail_empty_parens''),
      (''mail_parentheses_lastname'', ''is_mail_paren_name''),
      (''mail_with_brackets'', ''is_mail_with_brackets''),
      (''mail_only'', ''is_mail_only''),
      (''mail_double_at'', ''is_double_at''),
      (''mail_fake_domain'', ''is_fake_domain''),
      (''quoted_lastname_firstname_angle'', ''is_quoted_name''),
      (''lastname_comma_firstname_angle'', ''is_last_comma_first''),
      (''lastname_firstname_angle'', ''is_name_angle''),
      (''username_angle'', ''is_username_angle''),
      (''display_angle'', ''is_display_angle''),
      (''display_empty_angle'', ''is_display_empty_angle''),
      (''quoted_text_only'', ''is_quoted_text_no_email'')]"

text \<open>The flag dictionary with one flag set and the fourteen others clear.\<close>

definition one_hot :: "string \<Rightarrow> (string \<times> nat) list" where
  "one_hot flag = map (\<lambda>k. (k, if k = flag then 1 else 0)) FLAG_NAMES"

text \<open>
  A classifier result is well formed when it is a category of the table with the
  one-hot dictionary of its flag.
\<close>

definition well_classified :: "string \<times> (string \<times> nat) list \<Rightarrow> bool" where
  "well_classified r \<longleftrightarrow>
     (\<exists>cat flag. (cat, flag) \<in> set CATEGORY_FLAG \<and> r = (cat, one_hot flag)) \<and>
     sum_list (map snd (snd r)) = 1 \<and> length (snd r) = 15"

text \<open>The feature dictionary of a sender without an address.\<close>

definition zero_row :: "'f runtime \<Rightarrow> (string \<times> 'f cell) list" where
  "zero_row rt =
     [(''email_local_len'', IntCell 0),
      (''email_domain_len'', IntCell 0),
      (''email_local_entropy'', FloatCell (f_zero rt)),
      (''email_local_has_digits'', IntCell 0),
      (''email_local_has_underscore'', IntCell 0),
      (''email_local_has_dot'', IntCell 0),
      (''email_local_has_plus'', IntCell 0),
      (''email_domain_is_free'', IntCell 0),
      (''email_domain_has_digit'', IntCell 0),
      (''email_domain_has_dash'', IntCell 0)]"

text \<open>The keys of the feature dictionary, in the order of the dictionary display.\<close>

definition FEATURE_NAMES :: "string list" where
  "FEATURE_NAMES =
     [''email_local_len'', ''email_domain_len'', ''email_local_entropy'',
      ''email_local_has_digits'', ''email_local_has_underscore'', ''email_local_has_dot'',
      ''email_local_has_plus'', ''email_domain_is_free'', ''email_domain_has_digit'',
      ''email_domain_has_dash'']"

text \<open>
  The language of a pattern: the texts it matches in full.  The matcher by derivatives
  decides it (\<open>fullmatch_lang\<close> below).
\<close>

definition conc :: "pystr set \<Rightarrow> pystr set \<Rightarrow> pystr set" where
  "conc A B = {u @ v |u v. u \<in> A \<and> v \<in> B}"

inductive_set star :: "pystr set \<Rightarrow> pystr set" for A :: "pystr set" where
  star_empty: "[] \<in> star A"
| star_more: "u \<in> A \<Longrightarrow> v \<in> star A \<Longrightarrow> u @ v \<in> star A"

fun lang :: "rx \<Rightarrow> pystr set" where
  "lang Zero = {}"
| "lang One = {[]}"
| "lang (Sym p) = {[c] |c. p c}"
| "lang (Alt r s) = lang r \<union> lang s"
| "lang (Seq r s) = conc (lang r) (lang s)"
| "lang (Star r) = star (lang r)"

text \<open>
  The cleaned senders that no rule before the fake-domain rule takes: not empty, at most
  one \<^verbatim>\<open>@\<close> (so neither the multi-mails rule nor the double-at rule applies), no
  parenthesis pattern, no bracketed fragment, not a bare address.
\<close>

definition past_rule_7 :: "pystr \<Rightarrow> bool" where
  "past_rule_7 s \<longleftrightarrow>
     s \<noteq> [] \<and> count_list s 64 \<le> 1 \<and> \<not> fullmatch RE_PAREN_EMPTY s \<and>
     \<not> fullmatch RE_PAREN_NAME s \<and> \<not> search RE_BRACKETS s \<and> \<not> fullmatch RE_EMAIL_ONLY s"



section \<open>Cleaning\<close>

lemma isspace_32: "isspace 32"
  by (simp add: isspace_def)

lemma tidy_tl: "tidy (c # cs) \<Longrightarrow> tidy cs"
  by (cases cs) auto

lemma tidy_dropWhile: "tidy s \<Longrightarrow> tidy (dropWhile p s)"
  by (induction s) (auto dest: tidy_tl)

lemma tidy_Cons_iff:
  "tidy (c # cs) \<longleftrightarrow> (isspace c \<longrightarrow> c = 32 \<and> (cs \<noteq> [] \<longrightarrow> \<not> isspace (hd cs))) \<and> tidy cs"
  by (cases cs) auto

lemma tidy_append_iff:
  "tidy (xs @ ys) \<longleftrightarrow>
     tidy xs \<and> tidy ys \<and> (xs \<noteq> [] \<and> ys \<noteq> [] \<longrightarrow> \<not> (isspace (last xs) \<and> isspace (hd ys)))"
proof (induction xs rule: tidy.induct)
  case 1
  show ?case by simp
next
  case (2 c)
  show ?case by (cases ys) (auto simp: isspace_32)
next
  case (3 c d cs)
  then show ?case by auto
qed

lemma tidy_rev: "tidy (rev s) = tidy s"
proof (induction s)
  case Nil
  show ?case by simp
next
  case (Cons c cs)
  show ?case
  proof (cases cs)
    case Nil
    then show ?thesis by simp
  next
    case (Cons d ds)
    have "tidy (rev cs @ [c]) \<longleftrightarrow>
        tidy cs \<and> (isspace c \<longrightarrow> c = 32) \<and> \<not> (isspace (last (rev cs)) \<and> isspace c)"
      using Cons.IH Cons by (simp add: tidy_append_iff del: rev.simps)
    moreover have "last (rev cs) = d" using Cons by simp
    ultimately show ?thesis using Cons by (auto simp: isspace_32)
  qed
qed

lemma tidy_strip: "tidy s \<Longrightarrow> tidy (strip s)"
  by (simp add: strip_def strip_by_def tidy_rev tidy_dropWhile)

lemma hd_sub_ws_dropWhile:
  assumes "sub_ws (dropWhile isspace cs) \<noteq> []"
  shows "\<not> isspace (hd (sub_ws (dropWhile isspace cs)))"
proof (cases "dropWhile isspace cs")
  case Nil
  then have "sub_ws (dropWhile isspace cs) = []" by (simp del: dropWhile_eq_Nil_conv)
  with assms show ?thesis by simp
next
  case (Cons d ds)
  then have "\<not> isspace d" using hd_dropWhile [of isspace cs] by auto
  then show ?thesis using Cons by simp
qed

lemma tidy_sub_ws: "tidy (sub_ws s)"
proof (induction s rule: sub_ws.induct)
  case 1
  show ?case by simp
next
  case (2 c cs)
  show ?case
  proof (cases "isspace c")
    case True
    then show ?thesis
      using 2 hd_sub_ws_dropWhile [of cs] by (simp add: tidy_Cons_iff)
  next
    case False
    then show ?thesis using 2 by (simp add: tidy_Cons_iff)
  qed
qed

lemma sub_ws_tidy: "tidy s \<Longrightarrow> sub_ws s = s"
proof (induction s rule: tidy.induct)
  case 1
  show ?case by simp
next
  case (2 c)
  then show ?case by auto
next
  case (3 c d cs)
  then show ?case by auto
qed

lemma dropWhile_id: "s = [] \<or> \<not> p (hd s) \<Longrightarrow> dropWhile p s = s"
  by (cases s) auto

lemma last_dropWhile_keep: "dropWhile p s \<noteq> [] \<Longrightarrow> last (dropWhile p s) = last s"
  by (induction s) (auto split: if_splits)

lemma strip_by_fixed:
  assumes "s = [] \<or> (\<not> p (hd s) \<and> \<not> p (last s))"
  shows "strip_by p s = s"
proof (cases "s = []")
  case True
  then show ?thesis by (simp add: strip_by_def)
next
  case False
  with assms have h: "\<not> p (hd s)" and l: "\<not> p (last s)" by auto
  have a: "dropWhile p s = s" using h by (simp add: dropWhile_id)
  have "hd (rev s) = last s" using False by (simp add: hd_rev)
  then have b: "dropWhile p (rev s) = rev s" using l by (simp add: dropWhile_id)
  show ?thesis by (simp add: strip_by_def a b)
qed

lemma strip_by_ends:
  assumes "strip_by p s \<noteq> []"
  shows "\<not> p (hd (strip_by p s)) \<and> \<not> p (last (strip_by p s))"
proof -
  let ?u = "dropWhile p s"
  let ?v = "dropWhile p (rev ?u)"
  have v: "?v \<noteq> []" using assms by (simp add: strip_by_def)
  have u: "?u \<noteq> []"
  proof
    assume "?u = []"
    then have "?v = []" by (simp del: dropWhile_eq_Nil_conv)
    with v show False by simp
  qed
  have "\<not> p (hd ?v)" using v by (rule hd_dropWhile)
  then have l: "\<not> p (last (rev ?v))" using v by (simp add: last_rev)
  have "last ?v = last (rev ?u)" using v by (rule last_dropWhile_keep)
  also have "\<dots> = hd ?u" using u by (simp add: last_rev)
  finally have "hd (rev ?v) = hd ?u" using v by (simp add: hd_rev)
  moreover have "\<not> p (hd ?u)" using u by (rule hd_dropWhile)
  ultimately show ?thesis using l by (simp add: strip_by_def)
qed

lemma strip_by_idem: "strip_by p (strip_by p s) = strip_by p s"
  by (rule strip_by_fixed) (use strip_by_ends [of p s] in blast)

text \<open>
  C8.  Cleaning is total (a HOL function defined on every string and on the missing
  value, where it gives the empty string) and idempotent: cleaning a cleaned string
  returns it unchanged.
\<close>

theorem clean_idempotent: "clean (Some (clean x)) = clean x"
proof (cases x)
  case None
  show ?thesis unfolding None by (simp add: strip_def strip_by_def)
next
  case (Some s)
  have "tidy (strip (sub_ws s))" by (simp add: tidy_strip tidy_sub_ws)
  then have "sub_ws (strip (sub_ws s)) = strip (sub_ws s)" by (rule sub_ws_tidy)
  then show ?thesis unfolding Some by (simp add: strip_def strip_by_idem)
qed

section \<open>Totality and the flags\<close>

lemma distinct_FLAG_NAMES: "distinct FLAG_NAMES"
  by (simp add: FLAG_NAMES_def)

lemma length_FLAG_NAMES: "length FLAG_NAMES = 15"
  by (simp add: FLAG_NAMES_def)

lemma flags_of_table: "map snd CATEGORY_FLAG = [FLAG_NAMES ! 12, FLAG_NAMES ! 7, FLAG_NAMES ! 8,
    FLAG_NAMES ! 1, FLAG_NAMES ! 10, FLAG_NAMES ! 0, FLAG_NAMES ! 9, FLAG_NAMES ! 11, FLAG_NAMES ! 3,
    FLAG_NAMES ! 4, FLAG_NAMES ! 2, FLAG_NAMES ! 5, FLAG_NAMES ! 6, FLAG_NAMES ! 13, FLAG_NAMES ! 14]"
  by (simp add: CATEGORY_FLAG_def FLAG_NAMES_def)

lemma table_flags: "(cat, flag) \<in> set CATEGORY_FLAG \<Longrightarrow> flag \<in> set FLAG_NAMES"
proof -
  assume "(cat, flag) \<in> set CATEGORY_FLAG"
  then have "flag \<in> set (map snd CATEGORY_FLAG)" by force
  then show ?thesis
    unfolding flags_of_table using length_FLAG_NAMES by (auto intro!: nth_mem)
qed

lemma dict_set_fromkeys:
  "k \<in> set ks \<Longrightarrow> dict_set k (1::nat) (fromkeys ks 0) = map (\<lambda>k'. (k', if k' = k then 1 else 0)) ks"
  by (auto simp: dict_set_def fromkeys_def comp_def image_iff)

lemma sum_one_hot_gen:
  "distinct ks \<Longrightarrow> f \<in> set ks \<Longrightarrow>
     sum_list (map snd (map (\<lambda>k. (k, if k = f then 1 else 0 :: nat)) ks)) = 1"
proof (induction ks)
  case Nil
  then show ?case by simp
next
  case (Cons a ks)
  show ?case
  proof (cases "a = f")
    case True
    then have "f \<notin> set ks" using Cons.prems by simp
    then have "map (\<lambda>k. (k, if k = f then 1 else 0 :: nat)) ks = map (\<lambda>k. (k, 0)) ks"
      by (intro map_cong) auto
    then show ?thesis using True by (simp add: comp_def)
  next
    case False
    then show ?thesis using Cons by simp
  qed
qed

lemma branch_well:
  assumes "(cat, flag) \<in> set CATEGORY_FLAG"
  shows "well_classified (branch flag cat)"
proof -
  have f: "flag \<in> set FLAG_NAMES" using assms by (rule table_flags)
  have b: "branch flag cat = (cat, one_hot flag)"
    using f by (simp only: branch_def one_hot_def dict_set_fromkeys)
  have "sum_list (map snd (one_hot flag)) = 1"
    unfolding one_hot_def using distinct_FLAG_NAMES f by (rule sum_one_hot_gen)
  moreover have "length (one_hot flag) = 15" by (simp add: one_hot_def length_FLAG_NAMES)
  ultimately show ?thesis using assms b unfolding well_classified_def by auto
qed

lemma well_if: "well_classified a \<Longrightarrow> well_classified b \<Longrightarrow> well_classified (if c then a else b)"
  by simp

lemma well_pair: "(\<And>a b. well_classified (f a b)) \<Longrightarrow> well_classified (case p of (a, b) \<Rightarrow> f a b)"
  by (cases p) simp

lemma in_table:
  "(''other'', ''is_other'') \<in> set CATEGORY_FLAG"
  "(''multi_mails'', ''is_multi_mails'') \<in> set CATEGORY_FLAG"
  "(''mail_empty_parentheses'', ''is_mail_empty_parens'') \<in> set CATEGORY_FLAG"
  "(''mail_parentheses_lastname'', ''is_mail_paren_name'') \<in> set CATEGORY_FLAG"
  "(''mail_with_brackets'', ''is_mail_with_brackets'') \<in> set CATEGORY_FLAG"
  "(''mail_only'', ''is_mail_only'') \<in> set CATEGORY_FLAG"
  "(''mail_double_at'', ''is_double_at'') \<in> set CATEGORY_FLAG"
  "(''mail_fake_domain'', ''is_fake_domain'') \<in> set CATEGORY_FLAG"
  "(''quoted_lastname_firstname_angle'', ''is_quoted_name'') \<in> set CATEGORY_FLAG"
  "(''lastname_comma_firstname_angle'', ''is_last_comma_first'') \<in> set CATEGORY_FLAG"
  "(''lastname_firstname_angle'', ''is_name_angle'') \<in> set CATEGORY_FLAG"
  "(''username_angle'', ''is_username_angle'') \<in> set CATEGORY_FLAG"
  "(''display_angle'', ''is_display_angle'') \<in> set CATEGORY_FLAG"
  "(''display_empty_angle'', ''is_display_empty_angle'') \<in> set CATEGORY_FLAG"
  "(''quoted_text_only'', ''is_quoted_text_no_email'') \<in> set CATEGORY_FLAG"
  by (simp_all add: CATEGORY_FLAG_def)

lemmas branches_well = in_table [THEN branch_well]

lemma classify_angle_well: "well_classified (classify_angle s d)"
  unfolding classify_angle_def Let_def by (intro well_if branches_well)

lemma classify_special_well: "well_classified (classify_special s)"
  unfolding classify_special_def Let_def by (intro well_if branches_well)

lemma classify_well: "well_classified (classify x)"
  unfolding classify_def Let_def
  by (intro well_if well_pair branches_well classify_angle_well classify_special_well)

lemma table_shape:
  "length CATEGORY_FLAG = 15 \<and> distinct (map fst CATEGORY_FLAG) \<and> distinct (map snd CATEGORY_FLAG)"
  by (simp add: CATEGORY_FLAG_def)

lemma table_flag_set: "set (map snd CATEGORY_FLAG) = set FLAG_NAMES"
proof -
  have "set (map snd CATEGORY_FLAG) \<subseteq> set FLAG_NAMES" using table_flags by auto
  moreover have "card (set (map snd CATEGORY_FLAG)) = 15"
    using table_shape distinct_card [of "map snd CATEGORY_FLAG"] by simp
  moreover have "card (set FLAG_NAMES) = 15"
    using distinct_FLAG_NAMES length_FLAG_NAMES distinct_card [of FLAG_NAMES] by simp
  ultimately show ?thesis by (simp add: card_subset_eq)
qed

text \<open>
  C1.  For every sender, missing, empty or any sequence of code points, the classifier
  returns (it is a total function) a category of the table of fifteen categories
  together with the flag dictionary in which the flag of that category is 1 and every
  other flag is 0; the flags sum to 1, there are fifteen of them, and the table pairs
  the fifteen categories with the fifteen flags one to one.
\<close>

theorem classify_total_one_hot:
  "(\<exists>cat flag. (cat, flag) \<in> set CATEGORY_FLAG \<and> classify x = (cat, one_hot flag)) \<and>
   sum_list (map snd (snd (classify x))) = 1 \<and> length (snd (classify x)) = 15 \<and>
   length CATEGORY_FLAG = 15 \<and> distinct (map fst CATEGORY_FLAG) \<and>
   distinct (map snd CATEGORY_FLAG) \<and> set (map snd CATEGORY_FLAG) = set FLAG_NAMES"
  using classify_well [of x] table_shape table_flag_set unfolding well_classified_def by blast

section \<open>The order of the rules\<close>

text \<open>
  C3.  A cleaned sender with a comma and at least two \<^verbatim>\<open>@\<close> is classified
  \<^verbatim>\<open>multi_mails\<close>, whatever later rules it would match.
\<close>

theorem multi_mails_first:
  assumes "44 \<in> set (clean x)" and "2 \<le> count_list (clean x) 64"
  shows "fst (classify x) = ''multi_mails''"
proof -
  have "clean x \<noteq> []" using assms(1) by auto
  then show ?thesis using assms by (simp add: classify_def branch_def)
qed

section \<open>Running the model\<close>

lemmas rx_eval = alt_def seq_def Chr_def Plus_def Opt_def Dollar_def ws_def TRAIL_def
  not_at_space_def none_of_def isspace_def ichr_def NAME_CHARS_def username_char_def

lemmas clean_eval = str_def strip_def strip_by_def isspace_def

text \<open>
  The sender of scenario E; each of its two fragments is a bare address.
\<close>

theorem multi_mails_first_witness:
  "44 \<in> set (clean (Some (str ''a@b.com, c@d.com''))) \<and>
   2 \<le> count_list (clean (Some (str ''a@b.com, c@d.com''))) 64 \<and>
   fst (classify (Some (str ''a@b.com, c@d.com''))) = ''multi_mails'' \<and>
   fullmatch RE_EMAIL_ONLY (str ''a@b.com'') \<and> fullmatch RE_EMAIL_ONLY (str ''c@d.com'') \<and>
   fst (classify (Some (str ''a@b.com''))) = ''mail_only''"
proof -
  have c: "clean (Some (str ''a@b.com, c@d.com'')) = str ''a@b.com, c@d.com''"
    by (simp add: clean_eval)
  have h1: "44 \<in> set (clean (Some (str ''a@b.com, c@d.com'')))"
    unfolding c by (simp add: str_def)
  have h2: "2 \<le> count_list (clean (Some (str ''a@b.com, c@d.com''))) 64"
    unfolding c by (simp add: str_def)
  have m1: "fullmatch RE_EMAIL_ONLY (str ''a@b.com'')"
    by (simp add: str_def RE_EMAIL_ONLY_def EMAIL_def rx_eval)
  have m2: "fullmatch RE_EMAIL_ONLY (str ''c@d.com'')"
    by (simp add: str_def RE_EMAIL_ONLY_def EMAIL_def rx_eval)
  have c': "clean (Some (str ''a@b.com'')) = str ''a@b.com''"
    by (simp add: clean_eval)
  have n1: "\<not> fullmatch RE_PAREN_EMPTY (str ''a@b.com'')"
    by (simp add: str_def RE_PAREN_EMPTY_def EMAIL_def rx_eval)
  have n2: "\<not> fullmatch RE_PAREN_NAME (str ''a@b.com'')"
    by (simp add: str_def RE_PAREN_NAME_def EMAIL_def rx_eval)
  have n3: "\<not> search RE_BRACKETS (str ''a@b.com'')"
    by (simp add: str_def search_def RE_BRACKETS_def rx_eval)
  have n4: "44 \<notin> set (str ''a@b.com'')" "str ''a@b.com'' \<noteq> []"
    by (simp_all add: str_def)
  have m3: "fst (classify (Some (str ''a@b.com''))) = ''mail_only''"
    unfolding classify_def c' Let_def by (simp only: n1 n2 n3 n4 m1 if_True if_False branch_def fst_conv simp_thms)
  show ?thesis using multi_mails_first [OF h1 h2] h1 h2 m1 m2 m3 by simp
qed

section \<open>Senders without an address\<close>

lemma empty_not_free: "[] \<notin> set FREE_DOMAINS"
  by (simp add: FREE_DOMAINS_def str_def)

lemma feature_row_no_email:
  assumes "email_of (clean x) = []"
  shows "feature_row rt x = zero_row rt"
  using assms empty_not_free
  by (simp add: feature_row_def local_domain_def shannon_entropy_def int_bool_def zero_row_def)

lemma email_of_empty: "email_of [] = []"
  by (simp add: email_of_def split_display_angle_def RE_EMAIL_ONLY_def EMAIL_def rx_eval)

text \<open>
  C5.  When no address is located in the cleaned sender, the feature dictionary has all
  ten fields: both lengths 0, the entropy the zero of the doubles, every boolean 0.
  The missing sender and the empty sender are such senders.
\<close>

theorem no_address_zero_features:
  "(email_of (clean x) = [] \<longrightarrow> feature_row rt x = zero_row rt) \<and>
   feature_row rt None = zero_row rt \<and> feature_row rt (Some []) = zero_row rt \<and>
   length (zero_row rt) = 10"
proof -
  have "clean (Some []) = []" by (simp add: strip_def strip_by_def)
  then have "email_of (clean (Some [])) = []" "email_of (clean None) = []"
    using email_of_empty by simp_all
  then show ?thesis using feature_row_no_email by (auto simp: zero_row_def)
qed

theorem no_address_zero_features_witness:
  "email_of (clean (Some (str ''undisclosed recipients''))) = [] \<and>
   feature_row ascii_runtime (Some (str ''undisclosed recipients'')) = zero_row ascii_runtime"
proof -
  have c: "clean (Some (str ''undisclosed recipients'')) = str ''undisclosed recipients''"
    by (simp add: clean_eval)
  have "split_display_angle (str ''undisclosed recipients'') = ([], [])"
    by (simp add: split_display_angle_def RE_DISPLAY_ANGLE_search_def ADDR_def str_def rx_eval)
  moreover have "\<not> fullmatch RE_EMAIL_ONLY (str ''undisclosed recipients'')"
    by (simp add: str_def RE_EMAIL_ONLY_def EMAIL_def rx_eval)
  ultimately have e: "email_of (clean (Some (str ''undisclosed recipients''))) = []"
    unfolding c by (simp add: email_of_def)
  show ?thesis
    using no_address_zero_features [of "Some (str ''undisclosed recipients'')" ascii_runtime] e
    by simp
qed

section \<open>The feature columns\<close>

lemma remdups_covered:
  "distinct bs \<Longrightarrow> set as \<subseteq> set bs \<Longrightarrow> remdups (as @ bs) = bs"
  by (induction as) (auto simp: distinct_remdups_id)

lemma first_seen_covered:
  assumes "distinct ks" and "set ys \<subseteq> set ks"
  shows "rev (remdups (rev (ks @ ys))) = ks"
proof -
  have "remdups (rev ys @ rev ks) = rev ks"
    using assms by (intro remdups_covered) auto
  then show ?thesis by simp
qed

lemma keys_feature_row: "map fst (feature_row rt x) = FEATURE_NAMES"
  by (simp add: feature_row_def FEATURE_NAMES_def split: prod.split)

lemma distinct_FEATURE_NAMES: "distinct FEATURE_NAMES"
  by (simp add: FEATURE_NAMES_def)

lemma columns_feature_rows:
  assumes "senders \<noteq> []"
  shows "DataFrame_columns (map (feature_row rt) senders) = FEATURE_NAMES"
proof -
  obtain x xs where s: "senders = x # xs" using assms by (cases senders) auto
  have "set (concat (map (map fst) (map (feature_row rt) xs))) \<subseteq> set FEATURE_NAMES"
    by (auto simp: keys_feature_row)
  then show ?thesis
    unfolding DataFrame_columns_def s
    using first_seen_covered [OF distinct_FEATURE_NAMES] by (simp add: keys_feature_row)
qed

text \<open>
  C7 as amended.  For a table with at least one row the batch entry point adds exactly
  ten feature columns, with these names in this order; for a table without rows it adds
  no feature column.
\<close>

theorem ten_feature_columns:
  "(senders \<noteq> [] \<longrightarrow>
      enrich_columns (build_sender_features rt senders) =
        [''email_local_len'', ''email_domain_len'', ''email_local_entropy'',
         ''email_local_has_digits'', ''email_local_has_underscore'', ''email_local_has_dot'',
         ''email_local_has_plus'', ''email_domain_is_free'', ''email_domain_has_digit'',
         ''email_domain_has_dash''] \<and>
      length (enrich_columns (build_sender_features rt senders)) = 10) \<and>
   enrich_columns (build_sender_features rt []) = []"
proof -
  have "enrich_columns (build_sender_features rt []) = []"
    by (simp add: build_sender_features_def DataFrame_columns_def)
  moreover have "senders \<noteq> [] \<Longrightarrow> enrich_columns (build_sender_features rt senders) = FEATURE_NAMES"
    by (simp add: build_sender_features_def Let_def columns_feature_rows)
  ultimately show ?thesis by (auto simp: FEATURE_NAMES_def)
qed

theorem ten_feature_columns_witness:
  "[Some (str ''alice@example.org''), None] \<noteq> [] \<and>
   enrich_columns (build_sender_features ascii_runtime [Some (str ''alice@example.org''), None]) =
        [''email_local_len'', ''email_domain_len'', ''email_local_entropy'',
         ''email_local_has_digits'', ''email_local_has_underscore'', ''email_local_has_dot'',
         ''email_local_has_plus'', ''email_domain_is_free'', ''email_domain_has_digit'',
         ''email_domain_has_dash'']"
  using ten_feature_columns [of "[Some (str ''alice@example.org''), None]" ascii_runtime] by simp

text \<open>The feature columns of a one-row table are ten, not eleven.\<close>

theorem eleven_feature_columns_counterexample:
  "length (enrich_columns (build_sender_features ascii_runtime [None])) = 10 \<and>
   length (enrich_columns (build_sender_features ascii_runtime [None])) \<noteq> 11"
  by (simp add: build_sender_features_def DataFrame_columns_def feature_row_def Let_def
      split: prod.split)

section \<open>The matcher decides the language\<close>

lemma nullable_lang: "nullable r \<longleftrightarrow> [] \<in> lang r"
  by (induction r) (auto simp: conc_def intro: star_empty)

lemma lang_alt: "lang (alt r s) = lang r \<union> lang s"
  by (cases r; cases s) (simp_all add: alt_def)

lemma conc_empty: "conc {} B = {}" "conc A {} = {}"
  by (simp_all add: conc_def)

lemma conc_unit: "conc {[]} B = B" "conc A {[]} = A"
  by (simp_all add: conc_def)

lemma lang_seq: "lang (seq r s) = conc (lang r) (lang s)"
  by (cases r; cases s) (simp_all add: seq_def conc_empty conc_unit)

lemma conc_cons:
  "c # w \<in> conc A B \<longleftrightarrow> (\<exists>u v. w = u @ v \<and> c # u \<in> A \<and> v \<in> B) \<or> ([] \<in> A \<and> c # w \<in> B)"
  unfolding conc_def by (auto simp: Cons_eq_append_conv)

lemma star_cons_split:
  assumes "x \<in> star A" and "x = c # w"
  shows "\<exists>u v. w = u @ v \<and> c # u \<in> A \<and> v \<in> star A"
  using assms
proof (induction rule: star.induct)
  case star_empty
  then show ?case by simp
next
  case (star_more u v)
  show ?case
  proof (cases u)
    case Nil
    then show ?thesis using star_more by simp
  next
    case (Cons d u')
    then have "w = u' @ v" "c # u' \<in> A" using star_more by auto
    then show ?thesis using star_more.hyps(2) by blast
  qed
qed

lemma star_cons:
  "c # w \<in> star A \<longleftrightarrow> (\<exists>u v. w = u @ v \<and> c # u \<in> A \<and> v \<in> star A)"
proof
  assume "c # w \<in> star A"
  then show "\<exists>u v. w = u @ v \<and> c # u \<in> A \<and> v \<in> star A"
    using star_cons_split by blast
next
  assume "\<exists>u v. w = u @ v \<and> c # u \<in> A \<and> v \<in> star A"
  then obtain u v where "w = u @ v" "c # u \<in> A" "v \<in> star A" by blast
  then show "c # w \<in> star A" using star_more [of "c # u" A v] by simp
qed

lemma lang_deriv: "w \<in> lang (deriv c r) \<longleftrightarrow> c # w \<in> lang r"
proof (induction r arbitrary: w)
  case (Seq r s)
  then show ?case
    by (auto simp: lang_alt lang_seq conc_cons nullable_lang) (auto simp: conc_def)
next
  case (Star r)
  then show ?case
    by (auto simp: lang_seq star_cons) (auto simp: conc_def)
qed (auto simp: lang_alt)

lemma fullmatch_lang: "fullmatch r w \<longleftrightarrow> w \<in> lang r"
  by (induction w arbitrary: r) (simp_all add: nullable_lang lang_deriv)

section \<open>Matching, pattern by pattern\<close>

lemma fullmatch_Seq:
  "fullmatch (Seq r s) w \<longleftrightarrow> (\<exists>u v. w = u @ v \<and> fullmatch r u \<and> fullmatch s v)"
  by (auto simp: fullmatch_lang conc_def)

lemma fullmatch_SeqI: "fullmatch r u \<Longrightarrow> fullmatch s v \<Longrightarrow> fullmatch (Seq r s) (u @ v)"
  by (auto simp: fullmatch_Seq)

lemma fullmatch_Sym: "fullmatch (Sym p) w \<longleftrightarrow> (\<exists>c. w = [c] \<and> p c)"
  by (auto simp: fullmatch_lang)

lemma fullmatch_Chr: "fullmatch (Chr a) w \<longleftrightarrow> w = [a]"
  by (auto simp: Chr_def fullmatch_Sym)

lemma star_Sym: "w \<in> star {[c] |c. p c} \<longleftrightarrow> list_all p w"
proof
  assume "w \<in> star {[c] |c. p c}"
  then show "list_all p w" by (induction rule: star.induct) auto
next
  assume "list_all p w"
  then show "w \<in> star {[c] |c. p c}"
  proof (induction w)
    case Nil
    show ?case by (rule star_empty)
  next
    case (Cons c w)
    then have "[c] \<in> {[c] |c. p c}" "w \<in> star {[c] |c. p c}" by auto
    then have "[c] @ w \<in> star {[c] |c. p c}" by (rule star_more)
    then show ?case by simp
  qed
qed

lemma fullmatch_Star_Sym: "fullmatch (Star (Sym p)) w \<longleftrightarrow> list_all p w"
  by (simp add: fullmatch_lang star_Sym)

lemma fullmatch_Sym_Seq:
  "fullmatch (Seq (Sym p) s) w \<longleftrightarrow> (\<exists>c v. w = c # v \<and> p c \<and> fullmatch s v)"
proof
  assume "fullmatch (Seq (Sym p) s) w"
  then show "\<exists>c v. w = c # v \<and> p c \<and> fullmatch s v"
    by (auto simp: fullmatch_Seq fullmatch_Sym)
next
  assume "\<exists>c v. w = c # v \<and> p c \<and> fullmatch s v"
  then obtain c v where w: "w = [c] @ v" and "p c" "fullmatch s v" by auto
  then have "fullmatch (Sym p) [c]" by (simp add: fullmatch_Sym)
  then show "fullmatch (Seq (Sym p) s) w"
    unfolding w using \<open>fullmatch s v\<close> by (rule fullmatch_SeqI)
qed

lemma fullmatch_Plus_Sym: "fullmatch (Plus (Sym p)) w \<longleftrightarrow> w \<noteq> [] \<and> list_all p w"
proof -
  have e: "fullmatch (Plus (Sym p)) w \<longleftrightarrow> (\<exists>c v. w = c # v \<and> p c \<and> list_all p v)"
    by (simp only: Plus_def fullmatch_Sym_Seq fullmatch_Star_Sym)
  show ?thesis unfolding e by (cases w) auto
qed

lemma fullmatch_Opt: "fullmatch (Opt r) w \<longleftrightarrow> w = [] \<or> fullmatch r w"
  by (auto simp: Opt_def fullmatch_lang)

lemma fullmatch_Dollar: "fullmatch Dollar w \<longleftrightarrow> w = [] \<or> w = [10]"
  by (simp add: Dollar_def fullmatch_Opt fullmatch_Chr)

lemma isspace_10: "isspace 10"
  by (simp add: isspace_def)

lemma fullmatch_TRAIL: "fullmatch TRAIL w \<longleftrightarrow> list_all isspace w"
  by (auto simp: TRAIL_def ws_def fullmatch_Seq fullmatch_Star_Sym fullmatch_Dollar isspace_10
      intro: exI [of _ w])

lemmas fullmatch_simps = fullmatch_Seq fullmatch_Chr fullmatch_Star_Sym fullmatch_Plus_Sym
  fullmatch_Opt fullmatch_Dollar fullmatch_TRAIL

text \<open>A text that a pattern ending in a literal and \<^verbatim>\<open>\s*$\<close> matches.\<close>

lemma ends_literal:
  assumes "fullmatch (Seq (Chr a) TRAIL) v" and "w = u @ v" and "\<not> isspace (last w)"
  shows "last w = a"
proof -
  obtain t where v: "v = a # t" and t: "list_all isspace t"
    using assms(1) by (auto simp: fullmatch_simps)
  have "t = []"
  proof (rule ccontr)
    assume "t \<noteq> []"
    then have "last w = last t" using assms(2) v by simp
    moreover have "isspace (last t)" using t \<open>t \<noteq> []\<close> by (simp add: list_all_iff)
    ultimately show False using assms(3) by simp
  qed
  then show ?thesis using assms(2) v by simp
qed

lemma paren_name_ends:
  assumes "fullmatch RE_PAREN_NAME w" and "\<not> isspace (last w)"
  shows "last w = 41"
proof -
  obtain u v where "w = u @ v" "fullmatch (Seq (Chr 41) TRAIL) v"
    using assms(1) unfolding RE_PAREN_NAME_def fullmatch_Seq [of EMAIL] fullmatch_Seq [of "Star ws"]
      fullmatch_Seq [of "Chr 40"] fullmatch_Seq [of "Plus (Sym (none_of [41]))"]
    by (metis append.assoc)
  then show ?thesis using assms(2) ends_literal by blast
qed

lemma paren_empty_ends:
  assumes "fullmatch RE_PAREN_EMPTY w" and "\<not> isspace (last w)"
  shows "last w = 41"
proof -
  obtain u v where "w = u @ v" "fullmatch (Seq (Chr 41) TRAIL) v"
    using assms(1) unfolding RE_PAREN_EMPTY_def fullmatch_Seq [of EMAIL] fullmatch_Seq [of "Star ws"]
      fullmatch_Seq [of "Chr 40"]
    by (metis append.assoc)
  then show ?thesis using assms(2) ends_literal by blast
qed

lemma angle_tail_ends:
  assumes "fullmatch (Seq ADDR TRAIL) v" and "w = u @ v" and "\<not> isspace (last w)"
  shows "last w = 62"
proof -
  obtain a b where "v = a @ b" "fullmatch (Seq (Chr 62) TRAIL) b"
    using assms(1) unfolding ADDR_def fullmatch_Seq [of "Seq (Chr 60) _"] fullmatch_Seq [of "Chr 60"]
      fullmatch_Seq [of "Star ws"] fullmatch_Seq [of "Plus (Sym (none_of [62]))"] fullmatch_Seq [of "Chr 64"]
      fullmatch_Seq [of "Chr 62"]
    by (metis append.assoc)
  then have "w = (u @ a) @ b" using assms(2) by simp
  then show ?thesis using \<open>fullmatch (Seq (Chr 62) TRAIL) b\<close> assms(3) ends_literal by blast
qed

section \<open>Cleaned senders\<close>

lemma clean_ends:
  assumes "clean x \<noteq> []"
  shows "\<not> isspace (hd (clean x)) \<and> \<not> isspace (last (clean x))"
proof (cases x)
  case None
  then show ?thesis using assms by simp
next
  case (Some s)
  then show ?thesis using assms strip_by_ends [of isspace "sub_ws s"] by (simp add: strip_def)
qed

lemma sub_ws_no_space: "list_all (\<lambda>c. \<not> isspace c) s \<Longrightarrow> sub_ws s = s"
  by (induction s) auto

lemma clean_no_space:
  assumes "list_all (\<lambda>c. \<not> isspace c) s"
  shows "clean (Some s) = s"
proof -
  have "s = [] \<or> (\<not> isspace (hd s) \<and> \<not> isspace (last s))"
    using assms by (cases s) (auto simp: list_all_iff)
  then have "strip_by isspace s = s" by (rule strip_by_fixed)
  then show ?thesis using assms by (simp add: strip_def sub_ws_no_space)
qed

lemma lazy_disp_Some:
  "lazy_disp d s = Some r \<Longrightarrow> \<exists>u v. s = u @ v \<and> fullmatch (Seq ADDR TRAIL) v"
proof (induction s arbitrary: d)
  case Nil
  then show ?case by (auto split: if_splits)
next
  case (Cons c cs)
  show ?case
  proof (cases "fullmatch (Seq ADDR TRAIL) (c # cs)")
    case True
    then show ?thesis by (metis append_Nil)
  next
    case False
    then have "lazy_disp (d @ [c]) cs = Some r" using Cons.prems by (auto split: if_splits)
    then obtain u v where "cs = u @ v" "fullmatch (Seq ADDR TRAIL) v" using Cons.IH by blast
    then have "c # cs = (c # u) @ v" by simp
    then show ?thesis using \<open>fullmatch (Seq ADDR TRAIL) v\<close> by blast
  qed
qed

lemma no_angle_unless_closed:
  assumes "s \<noteq> []" and "\<not> isspace (last s)" and "last s \<noteq> 62"
  shows "split_display_angle s = ([], [])"
proof -
  have "lazy_disp [] s = None"
  proof (rule ccontr)
    assume "lazy_disp [] s \<noteq> None"
    then obtain r where "lazy_disp [] s = Some r" by auto
    then obtain u v where "s = u @ v" "fullmatch (Seq ADDR TRAIL) v"
      using lazy_disp_Some by blast
    then have "last s = 62" using assms(2) angle_tail_ends by blast
    then show False using assms(3) by simp
  qed
  then show ?thesis by (simp add: split_display_angle_def RE_DISPLAY_ANGLE_search_def)
qed

lemma not_at_space_D: "list_all not_at_space u \<Longrightarrow> list_all (\<lambda>c. \<not> isspace c) u \<and> 64 \<notin> set u"
  by (auto simp: list_all_iff not_at_space_def)

lemma EMAIL_no_space:
  assumes "fullmatch EMAIL u"
  shows "list_all (\<lambda>c. \<not> isspace c) u"
proof -
  obtain a b c where u: "u = a @ [64] @ b @ [46] @ c"
    and "list_all not_at_space a" "list_all not_at_space b" "list_all not_at_space c"
    using assms unfolding EMAIL_def by (auto simp: fullmatch_simps)
  then show ?thesis using not_at_space_D by (auto simp: isspace_def)
qed

lemma email_only_no_space:
  assumes "fullmatch RE_EMAIL_ONLY s" and "s = [] \<or> \<not> isspace (last s)"
  shows "list_all (\<lambda>c. \<not> isspace c) s"
proof -
  obtain u d where s: "s = u @ d" and u: "fullmatch EMAIL u" and d: "d = [] \<or> d = [10]"
    using assms(1) unfolding RE_EMAIL_ONLY_def by (auto simp: fullmatch_simps)
  have "d = []"
  proof (rule ccontr)
    assume "d \<noteq> []"
    then have "last s = 10" using d s by auto
    then show False using assms(2) s \<open>d \<noteq> []\<close> by (auto simp: isspace_10)
  qed
  then show ?thesis using s u EMAIL_no_space by simp
qed

section \<open>The parenthesized senders\<close>

text \<open>
  C10 as amended.  A sender of the two parenthesized categories (its cleaned form matches
  \<^verbatim>\<open>RE_PAREN_NAME\<close> or \<^verbatim>\<open>RE_PAREN_EMPTY\<close>) whose cleaned form contains whitespace has no
  address located: the angle helper finds nothing, the bare-address pattern rejects the
  whitespace, and every feature is zero.
\<close>

theorem paren_with_space_no_address:
  assumes "fullmatch RE_PAREN_NAME (clean x) \<or> fullmatch RE_PAREN_EMPTY (clean x)"
    and "list_ex isspace (clean x)"
  shows "split_display_angle (clean x) = ([], []) \<and> \<not> fullmatch RE_EMAIL_ONLY (clean x) \<and>
         email_of (clean x) = [] \<and> feature_row rt x = zero_row rt"
proof -
  have ne: "clean x \<noteq> []" using assms(2) by auto
  then have l: "\<not> isspace (last (clean x))" using clean_ends by blast
  have "last (clean x) = 41" using assms(1) l paren_name_ends paren_empty_ends by blast
  then have a: "split_display_angle (clean x) = ([], [])"
    using ne l by (intro no_angle_unless_closed) auto
  have b: "\<not> fullmatch RE_EMAIL_ONLY (clean x)"
  proof
    assume "fullmatch RE_EMAIL_ONLY (clean x)"
    then have "list_all (\<lambda>c. \<not> isspace c) (clean x)" using l by (intro email_only_no_space) auto
    then show False using assms(2) by (auto simp: list_all_iff list_ex_iff)
  qed
  have c: "email_of (clean x) = []" using a b by (simp add: email_of_def)
  then show ?thesis using a b feature_row_no_email by blast
qed

text \<open>The sender \<^verbatim>\<open>a@b.com (Bob)\<close>, with a space before the parenthesis.\<close>

theorem paren_with_space_no_address_witness:
  "(fullmatch RE_PAREN_NAME (clean (Some (str ''a@b.com (Bob)''))) \<or>
      fullmatch RE_PAREN_EMPTY (clean (Some (str ''a@b.com (Bob)'')))) \<and>
   list_ex isspace (clean (Some (str ''a@b.com (Bob)''))) \<and>
   fst (classify (Some (str ''a@b.com (Bob)''))) = ''mail_parentheses_lastname'' \<and>
   email_of (clean (Some (str ''a@b.com (Bob)''))) = [] \<and>
   feature_row ascii_runtime (Some (str ''a@b.com (Bob)'')) = zero_row ascii_runtime"
proof -
  have c: "clean (Some (str ''a@b.com (Bob)'')) = str ''a@b.com (Bob)''"
    by (simp add: clean_eval)
  have m: "fullmatch RE_PAREN_NAME (str ''a@b.com (Bob)'')"
    by (simp add: str_def RE_PAREN_NAME_def EMAIL_def rx_eval)
  have n: "\<not> fullmatch RE_PAREN_EMPTY (str ''a@b.com (Bob)'')"
    by (simp add: str_def RE_PAREN_EMPTY_def EMAIL_def rx_eval)
  have e: "list_ex isspace (str ''a@b.com (Bob)'')"
    by (simp add: str_def isspace_def)
  have k: "44 \<notin> set (str ''a@b.com (Bob)'')" "str ''a@b.com (Bob)'' \<noteq> []"
    by (simp_all add: str_def)
  have h1: "fullmatch RE_PAREN_NAME (clean (Some (str ''a@b.com (Bob)''))) \<or>
      fullmatch RE_PAREN_EMPTY (clean (Some (str ''a@b.com (Bob)'')))"
    unfolding c using m by simp
  have h2: "list_ex isspace (clean (Some (str ''a@b.com (Bob)'')))"
    unfolding c by (rule e)
  have cl: "fst (classify (Some (str ''a@b.com (Bob)''))) = ''mail_parentheses_lastname''"
    unfolding classify_def c Let_def
    by (simp only: m n k if_True if_False branch_def fst_conv simp_thms)
  show ?thesis
    using paren_with_space_no_address [OF h1 h2, of ascii_runtime] h1 h2 cl by simp
qed

text \<open>
  The sender \<^verbatim>\<open>a@b.com(Bob)\<close>, without whitespace: it is of the category
  \<^verbatim>\<open>mail_parentheses_lastname\<close>, and the bare-address pattern accepts all of it, so
  an address is located, with the local part \<^verbatim>\<open>a\<close> and the domain \<^verbatim>\<open>b.com(Bob)\<close>.
\<close>

theorem paren_no_address_counterexample:
  "fullmatch RE_PAREN_NAME (clean (Some (str ''a@b.com(Bob)''))) \<and>
   fst (classify (Some (str ''a@b.com(Bob)''))) = ''mail_parentheses_lastname'' \<and>
   email_of (clean (Some (str ''a@b.com(Bob)''))) = str ''a@b.com(Bob)'' \<and>
   local_domain (email_of (clean (Some (str ''a@b.com(Bob)'')))) = (str ''a'', str ''b.com(Bob)'') \<and>
   feature_row ascii_runtime (Some (str ''a@b.com(Bob)'')) \<noteq> zero_row ascii_runtime"
proof -
  have c: "clean (Some (str ''a@b.com(Bob)'')) = str ''a@b.com(Bob)''"
    by (simp add: clean_eval)
  have m: "fullmatch RE_PAREN_NAME (str ''a@b.com(Bob)'')"
    by (simp add: str_def RE_PAREN_NAME_def EMAIL_def rx_eval)
  have n: "\<not> fullmatch RE_PAREN_EMPTY (str ''a@b.com(Bob)'')"
    by (simp add: str_def RE_PAREN_EMPTY_def EMAIL_def rx_eval)
  have o: "fullmatch RE_EMAIL_ONLY (str ''a@b.com(Bob)'')"
    by (simp add: str_def RE_EMAIL_ONLY_def EMAIL_def rx_eval)
  have k: "44 \<notin> set (str ''a@b.com(Bob)'')" "str ''a@b.com(Bob)'' \<noteq> []"
    by (simp_all add: str_def)
  have cl: "fst (classify (Some (str ''a@b.com(Bob)''))) = ''mail_parentheses_lastname''"
    unfolding classify_def c Let_def
    by (simp only: m n k if_True if_False branch_def fst_conv simp_thms)
  have a: "split_display_angle (str ''a@b.com(Bob)'') = ([], [])"
    by (intro no_angle_unless_closed) (simp_all add: str_def isspace_def)
  have e: "email_of (str ''a@b.com(Bob)'') = str ''a@b.com(Bob)''"
    by (simp add: email_of_def a o)
  have l: "local_domain (str ''a@b.com(Bob)'') = (str ''a'', str ''b.com(Bob)'')"
    by (simp add: local_domain_def str_def)
  have f: "feature_row ascii_runtime (Some (str ''a@b.com(Bob)'')) \<noteq> zero_row ascii_runtime"
    unfolding feature_row_def c e l by (simp add: zero_row_def str_def)
  show ?thesis unfolding c e l using m cl f unfolding c by simp
qed

section \<open>A lone angle-bracketed address\<close>

text \<open>
  C9 as amended.  A sender that is \<^verbatim>\<open><\<close>, a local part, \<^verbatim>\<open>@\<close>, a domain with a
  dot, \<^verbatim>\<open>>\<close>, all without whitespace and without a further \<^verbatim>\<open>@\<close>, and that has no
  bracketed fragment \<^verbatim>\<open>[...]\<close>, is classified \<^verbatim>\<open>mail_only\<close>: the bare-address pattern
  takes the angle brackets as address characters.
\<close>

theorem lone_angle_address_mail_only:
  assumes "s = 60 # l @ 64 # d @ 46 # t @ [62]"
    and "list_all not_at_space l" and "list_all not_at_space d" and "list_all not_at_space t"
    and "d \<noteq> []" and "\<not> search RE_BRACKETS s"
  shows "fst (classify (Some s)) = ''mail_only'' \<and> fullmatch RE_EMAIL_ONLY s"
proof -
  note ll = not_at_space_D [OF assms(2)] and dd = not_at_space_D [OF assms(3)]
    and tt = not_at_space_D [OF assms(4)]
  have "list_all (\<lambda>c. \<not> isspace c) s"
    unfolding assms(1) using ll dd tt by (simp add: isspace_def)
  then have c: "clean (Some s) = s" by (rule clean_no_space)
  have ne: "s \<noteq> []" using assms(1) by simp
  have cnt: "count_list s 64 = 1"
    unfolding assms(1) using ll dd tt by simp
  have la: "last s = 62" "\<not> isspace (last s)"
    using assms(1) by (simp_all add: isspace_def)
  have p1: "\<not> fullmatch RE_PAREN_EMPTY s" using paren_empty_ends la by fastforce
  have p2: "\<not> fullmatch RE_PAREN_NAME s" using paren_name_ends la by fastforce
  have a: "list_all not_at_space (60 # l)" using assms(2) by (simp add: not_at_space_def isspace_def)
  have b: "list_all not_at_space (t @ [62])" using assms(4) by (simp add: not_at_space_def isspace_def)
  have "fullmatch EMAIL ((60 # l) @ [64] @ d @ [46] @ (t @ [62]))"
    unfolding EMAIL_def
    by (intro fullmatch_SeqI) (use a b assms(3,5) in \<open>simp_all add: fullmatch_simps del: fullmatch.simps\<close>)
  then have "fullmatch RE_EMAIL_ONLY (((60 # l) @ [64] @ d @ [46] @ (t @ [62])) @ [])"
    unfolding RE_EMAIL_ONLY_def by (rule fullmatch_SeqI) (simp add: fullmatch_simps del: fullmatch.simps)
  then have m: "fullmatch RE_EMAIL_ONLY s" unfolding assms(1) by simp
  have "fst (classify (Some s)) = ''mail_only''"
    unfolding classify_def c Let_def using ne cnt p1 p2 m assms(6) by (simp add: branch_def)
  then show ?thesis using m by simp
qed

text \<open>The sender \<^verbatim>\<open><a@b.com>\<close>.\<close>

theorem lone_angle_address_mail_only_witness:
  "str ''<a@b.com>'' = 60 # str ''a'' @ 64 # str ''b'' @ 46 # str ''com'' @ [62] \<and>
   list_all not_at_space (str ''a'') \<and> list_all not_at_space (str ''b'') \<and>
   list_all not_at_space (str ''com'') \<and> str ''b'' \<noteq> [] \<and>
   \<not> search RE_BRACKETS (str ''<a@b.com>'') \<and>
   fst (classify (Some (str ''<a@b.com>''))) = ''mail_only''"
proof -
  have h1: "str ''<a@b.com>'' = 60 # str ''a'' @ 64 # str ''b'' @ 46 # str ''com'' @ [62]"
    by (simp add: str_def)
  have h2: "list_all not_at_space (str ''a'')" by (simp add: str_def not_at_space_def isspace_def)
  have h3: "list_all not_at_space (str ''b'')" by (simp add: str_def not_at_space_def isspace_def)
  have h4: "list_all not_at_space (str ''com'')" by (simp add: str_def not_at_space_def isspace_def)
  have h5: "str ''b'' \<noteq> []" by (simp add: str_def)
  have h6: "\<not> search RE_BRACKETS (str ''<a@b.com>'')"
    by (simp add: str_def search_def RE_BRACKETS_def rx_eval)
  show ?thesis
    using lone_angle_address_mail_only [OF h1 h2 h3 h4 h5 h6] h1 h2 h3 h4 h5 h6 by simp
qed

text \<open>
  The sender \<^verbatim>\<open><user@[192.168.0.1]>\<close>, an angle-bracketed address and nothing else,
  without whitespace, with a dot in its domain: the bracket rule comes first.
\<close>

theorem lone_angle_address_counterexample:
  "str ''<user@[192.168.0.1]>'' =
     60 # str ''user'' @ 64 # str ''[192'' @ 46 # str ''168.0.1]'' @ [62] \<and>
   list_all not_at_space (str ''user'') \<and> list_all not_at_space (str ''[192'') \<and>
   list_all not_at_space (str ''168.0.1]'') \<and>
   fst (classify (Some (str ''<user@[192.168.0.1]>''))) = ''mail_with_brackets'' \<and>
   fst (classify (Some (str ''<user@[192.168.0.1]>''))) \<noteq> ''mail_only''"
proof -
  have c: "clean (Some (str ''<user@[192.168.0.1]>'')) = str ''<user@[192.168.0.1]>''"
    by (simp add: clean_eval)
  have n1: "\<not> fullmatch RE_PAREN_EMPTY (str ''<user@[192.168.0.1]>'')"
    by (simp add: str_def RE_PAREN_EMPTY_def EMAIL_def rx_eval)
  have n2: "\<not> fullmatch RE_PAREN_NAME (str ''<user@[192.168.0.1]>'')"
    by (simp add: str_def RE_PAREN_NAME_def EMAIL_def rx_eval)
  have m: "search RE_BRACKETS (str ''<user@[192.168.0.1]>'')"
    by (simp add: str_def search_def RE_BRACKETS_def rx_eval)
  have k: "44 \<notin> set (str ''<user@[192.168.0.1]>'')" "str ''<user@[192.168.0.1]>'' \<noteq> []"
    by (simp_all add: str_def)
  have cl: "fst (classify (Some (str ''<user@[192.168.0.1]>''))) = ''mail_with_brackets''"
    unfolding classify_def c Let_def
    by (simp only: n1 n2 m k if_True if_False branch_def fst_conv simp_thms)
  have f: "str ''<user@[192.168.0.1]>'' =
     60 # str ''user'' @ 64 # str ''[192'' @ 46 # str ''168.0.1]'' @ [62]"
    by (simp add: str_def)
  have g: "list_all not_at_space (str ''user'')" "list_all not_at_space (str ''[192'')"
    "list_all not_at_space (str ''168.0.1]'')"
    by (simp_all add: str_def not_at_space_def isspace_def)
  show ?thesis using cl f g by simp
qed

section \<open>The angle addresses\<close>

lemma classify_past_rule_7:
  assumes "past_rule_7 (clean x)"
  shows "classify x =
     (if search RE_FAKE_DOMAIN (clean x) then branch ''is_fake_domain'' ''mail_fake_domain''
      else case split_display_angle (clean x) of
        (disp, angle) \<Rightarrow>
          if angle \<noteq> [] then classify_angle (clean x) disp else classify_special (clean x))"
  using assms unfolding past_rule_7_def classify_def Let_def by auto




section \<open>The fake-domain rule\<close>

lemma classify_angle_not_fake: "fst (classify_angle s d) \<noteq> ''mail_fake_domain''"
  by (simp add: classify_angle_def branch_def Let_def)

lemma classify_special_not_fake: "fst (classify_special s) \<noteq> ''mail_fake_domain''"
  by (simp add: classify_special_def branch_def Let_def)

text \<open>
  C4 as amended.  A cleaned sender that the rules 1 to 7 do not take is classified
  \<^verbatim>\<open>mail_fake_domain\<close> exactly when one of the three placeholder patterns occurs
  somewhere in it, in any letter case.
\<close>

theorem fake_domain_anywhere:
  assumes "past_rule_7 (clean x)"
  shows "(fst (classify x) = ''mail_fake_domain'') = search RE_FAKE_DOMAIN (clean x)"
  using classify_past_rule_7 [OF assms] classify_angle_not_fake classify_special_not_fake
  by (auto simp: branch_def split: prod.splits)

section \<open>The scenarios, run\<close>

lemmas split_eval = split_display_angle_def RE_DISPLAY_ANGLE_search_def ADDR_def addr_group_def
  inner_at_def strip_chars_def strip_def strip_by_def








text \<open>The sender of scenario F.\<close>

theorem fake_domain_anywhere_witness:
  "past_rule_7 (clean (Some (str ''someone@localhost''))) \<and>
   search RE_FAKE_DOMAIN (clean (Some (str ''someone@localhost''))) \<and>
   fst (classify (Some (str ''someone@localhost''))) = ''mail_fake_domain''"
proof -
  let ?w = "str ''someone@localhost''"
  have c: "clean (Some ?w) = ?w" by (simp add: clean_eval)
  have "?w \<noteq> []" "count_list ?w 64 \<le> 1" by (simp_all add: str_def)
  moreover have "\<not> fullmatch RE_PAREN_EMPTY ?w"
    by (simp add: str_def RE_PAREN_EMPTY_def EMAIL_def rx_eval)
  moreover have "\<not> fullmatch RE_PAREN_NAME ?w"
    by (simp add: str_def RE_PAREN_NAME_def EMAIL_def rx_eval)
  moreover have "\<not> search RE_BRACKETS ?w"
    by (simp add: str_def search_def RE_BRACKETS_def rx_eval)
  moreover have "\<not> fullmatch RE_EMAIL_ONLY ?w"
    by (simp add: str_def RE_EMAIL_ONLY_def EMAIL_def rx_eval)
  ultimately have h: "past_rule_7 (clean (Some ?w))"
    unfolding c by (simp add: past_rule_7_def)
  have m: "search RE_FAKE_DOMAIN (clean (Some ?w))"
    unfolding c by (simp add: str_def search_def RE_FAKE_DOMAIN_def rx_eval)
  show ?thesis using fake_domain_anywhere [OF h] h m by simp
qed

text \<open>
  The sender \<^verbatim>\<open>Example.com Support <help@corp.org>\<close>: no rule before the fake-domain
  rule takes it, the domain of its address is \<^verbatim>\<open>corp.org\<close>, which matches none of the
  placeholder patterns, and it is classified \<^verbatim>\<open>mail_fake_domain\<close> for its display name.
\<close>

theorem fake_domain_counterexample:
  "past_rule_7 (clean (Some (str ''Example.com Support <help@corp.org>''))) \<and>
   snd (local_domain (email_of (clean (Some (str ''Example.com Support <help@corp.org>''))))) =
     str ''corp.org'' \<and>
   \<not> search RE_FAKE_DOMAIN (str ''corp.org'') \<and>
   fst (classify (Some (str ''Example.com Support <help@corp.org>''))) = ''mail_fake_domain''"
proof -
  let ?e = "str ''Example.com Support <help@corp.org>''"
  have c: "clean (Some ?e) = ?e" by (simp add: clean_eval)
  have sp: "split_display_angle ?e = (str ''Example.com Support'', str ''help@corp.org'')"
    by (simp add: str_def split_eval rx_eval)
  have "?e \<noteq> []" "count_list ?e 64 \<le> 1" by (simp_all add: str_def)
  moreover have "\<not> fullmatch RE_PAREN_EMPTY ?e"
    by (simp add: str_def RE_PAREN_EMPTY_def EMAIL_def rx_eval)
  moreover have "\<not> fullmatch RE_PAREN_NAME ?e"
    by (simp add: str_def RE_PAREN_NAME_def EMAIL_def rx_eval)
  moreover have "\<not> search RE_BRACKETS ?e"
    by (simp add: str_def search_def RE_BRACKETS_def rx_eval)
  moreover have "\<not> fullmatch RE_EMAIL_ONLY ?e"
    by (simp add: str_def RE_EMAIL_ONLY_def EMAIL_def rx_eval)
  ultimately have h: "past_rule_7 (clean (Some ?e))"
    unfolding c by (simp add: past_rule_7_def)
  have m: "search RE_FAKE_DOMAIN ?e"
    by (simp add: str_def search_def RE_FAKE_DOMAIN_def rx_eval)
  have cl: "fst (classify (Some ?e)) = ''mail_fake_domain''"
    using classify_past_rule_7 [OF h, unfolded c] m by (simp only: if_True branch_def fst_conv)
  have em: "email_of ?e = str ''help@corp.org''"
    unfolding email_of_def sp Let_def by (simp add: str_def)
  have d: "snd (local_domain (str ''help@corp.org'')) = str ''corp.org''"
    by (simp add: local_domain_def str_def)
  have n: "\<not> search RE_FAKE_DOMAIN (str ''corp.org'')"
    by (simp add: str_def search_def RE_FAKE_DOMAIN_def rx_eval)
  show ?thesis using h cl n d unfolding c em by simp
qed

end
